theory Spec2Isabelle
  imports Complex_Main "HOL-Library.Word"
begin

section \<open>Payload decoding (bluetooth.ts, both variants)\<close>

text \<open>
  The source file \<^verbatim>\<open>bluetooth.ts\<close> holds two variants of the same module: the
  notify-only variant (\<^verbatim>\<open>toSensorData\<close>, \<^verbatim>\<open>parsePayload\<close>, a
  \<^verbatim>\<open>connectToESP32\<close> that waits for one notification) and the fallback variant
  (\<^verbatim>\<open>bytesToSensorData\<close>, \<^verbatim>\<open>parse2Bytes\<close>, a \<^verbatim>\<open>connectToESP32\<close> that
  races a notification against a timeout and then calls \<^verbatim>\<open>readValue\<close>).

  A JavaScript \<^verbatim>\<open>number\<close> is modelled as a \<open>real\<close>: every number the code handles
  is a byte read by \<^verbatim>\<open>getUint8\<close>, the literal \<^verbatim>\<open>0\<close>, or a constant of the rule
  table, all of which a double represents exactly. A \<^verbatim>\<open>DataView\<close> is the list of its
  bytes; \<^verbatim>\<open>byteLength\<close> is the length of the list.
\<close>

type_synonym byte = "8 word"
type_synonym DataView = "byte list"

record SensorData =
  pH :: real
  moisture :: real
  tds :: real
  nitrogen :: real
  phosphorus :: real
  potassium :: real

text \<open>
  Exceptions as values. \<open>Error m\<close> is \<^verbatim>\<open>new Error(m)\<close> for a literal message; the two
  messages that interpolate \<^verbatim>\<open>value.byteLength\<close> carry that length;
  \<open>RangeError\<close> is what \<^verbatim>\<open>DataView.getUint8\<close> throws out of bounds;
  \<open>DOMException name cause\<close> is an exception the platform raises (a rejected Web
  Bluetooth call), with whatever cause the platform attached. No \<^verbatim>\<open>new Error\<close> of the
  source passes a \<^verbatim>\<open>cause\<close> option.
\<close>

datatype js_error =
    Error string
  | InvalidBLEPayloadLength nat
  | Expected2Bytes nat
  | RangeError
  | DOMException string "js_error option"

fun cause :: "js_error \<Rightarrow> js_error option" where
  "cause (DOMException n c) = c"
| "cause (Error m) = None"
| "cause (InvalidBLEPayloadLength n) = None"
| "cause (Expected2Bytes n) = None"
| "cause RangeError = None"

definition getUint8 :: "DataView \<Rightarrow> nat \<Rightarrow> js_error + real" where
  "getUint8 v i = (if i < length v then Inr (real (unat (v ! i))) else Inl RangeError)"

definition toSensorData :: "real \<Rightarrow> real \<Rightarrow> SensorData" where
  "toSensorData m ec =
     \<lparr>pH = 0, moisture = m, tds = ec, nitrogen = ec, phosphorus = ec, potassium = ec\<rparr>"

text \<open>The result object \<^verbatim>\<open>{ moisture, ec }\<close> is the pair \<open>(moisture, ec)\<close>.\<close>

definition parsePayload :: "DataView \<Rightarrow> js_error + (real \<times> real)" where
  "parsePayload v =
     (if length v \<noteq> 2 then Inl (InvalidBLEPayloadLength (length v))
      else case getUint8 v 0 of
             Inl x \<Rightarrow> Inl x
           | Inr m \<Rightarrow> (case getUint8 v 1 of Inl x \<Rightarrow> Inl x | Inr ec \<Rightarrow> Inr (m, ec)))"

definition bytesToSensorData :: "real \<Rightarrow> real \<Rightarrow> SensorData" where
  "bytesToSensorData m ec =
     \<lparr>pH = 0, moisture = m, tds = ec, nitrogen = ec, phosphorus = ec, potassium = ec\<rparr>"

definition parse2Bytes :: "DataView \<Rightarrow> js_error + (real \<times> real)" where
  "parse2Bytes v =
     (if length v < 2 then Inl (Expected2Bytes (length v))
      else case getUint8 v 0 of
             Inl x \<Rightarrow> Inl x
           | Inr m \<Rightarrow> (case getUint8 v 1 of Inl x \<Rightarrow> Inl x | Inr ec \<Rightarrow> Inr (m, ec)))"

text \<open>
  The decode pipeline of each variant, as its notification handler runs it: parse, then
  build the reading.
\<close>

definition decode_notify :: "DataView \<Rightarrow> js_error + SensorData" where
  "decode_notify v =
     (case parsePayload v of Inl x \<Rightarrow> Inl x | Inr (m, ec) \<Rightarrow> Inr (toSensorData m ec))"

definition decode_fallback :: "DataView \<Rightarrow> js_error + SensorData" where
  "decode_fallback v =
     (case parse2Bytes v of Inl x \<Rightarrow> Inl x | Inr (m, ec) \<Rightarrow> Inr (bytesToSensorData m ec))"

section \<open>The acquisition session (bluetooth.ts, \<^verbatim>\<open>connectToESP32\<close>)\<close>

text \<open>
  \<^verbatim>\<open>connectToESP32\<close> is an async function on a single-threaded event loop. Its
  environment is a \<open>transport\<close>: whether \<^verbatim>\<open>navigator.bluetooth\<close> exists, how each
  awaited platform call of the setup settles (\<open>None\<close>: fulfilled, \<open>Some e\<close>: rejected
  with \<open>e\<close>), and the \<open>schedule\<close>: the tasks the event loop dispatches after the
  subscription, in order. The timeout argument \<^verbatim>\<open>timeoutMs\<close> is the place of
  \<open>TimerFires\<close> in the schedule.

  A task runs to completion together with the promise reactions it triggers
  (microtasks run before the next task), so one event is one step of the session.
\<close>

datatype event =
    Notification "DataView option"
      \<comment> \<open>a \<^verbatim>\<open>characteristicvaluechanged\<close> event; the argument is \<^verbatim>\<open>ch.value\<close>\<close>
  | TimerFires
      \<comment> \<open>the \<^verbatim>\<open>setTimeout\<close> delay has elapsed\<close>
  | ReadCompletes "js_error + DataView"
      \<comment> \<open>the promise of \<^verbatim>\<open>characteristic.readValue()\<close> settles\<close>
  | LinkLost
      \<comment> \<open>the peripheral drops the link: \<^verbatim>\<open>device.gatt.connected\<close> becomes false\<close>

datatype progress =
    Setup
  | Racing
      \<comment> \<open>waiting for the notification or the timer\<close>
  | FallbackRead
      \<comment> \<open>fallback variant only: suspended at \<^verbatim>\<open>await characteristic.readValue()\<close>\<close>
  | Settled "js_error + SensorData"
      \<comment> \<open>the promise returned by \<^verbatim>\<open>connectToESP32\<close> is rejected (\<open>Inl\<close>) or fulfilled (\<open>Inr\<close>)\<close>

record session =
  progress :: progress
  timer_armed :: bool   \<comment> \<open>the \<^verbatim>\<open>setTimeout\<close> callback is pending: not fired, not cleared\<close>
  listening :: bool     \<comment> \<open>\<^verbatim>\<open>handler\<close> is registered on the characteristic\<close>
  connected :: bool     \<comment> \<open>\<^verbatim>\<open>device.gatt.connected\<close>\<close>
  disconnects :: nat    \<comment> \<open>calls of \<^verbatim>\<open>device.gatt.disconnect()\<close> so far\<close>
  reads :: nat          \<comment> \<open>calls of \<^verbatim>\<open>characteristic.readValue()\<close> so far\<close>

record transport =
  has_bluetooth :: bool
  requestDevice :: "js_error option"
  gatt_connect :: "js_error option"
  getPrimaryService :: "js_error option"
  getCharacteristic :: "js_error option"
  startNotifications :: "js_error option"
  schedule :: "event list"

definition idle :: session where
  "idle = \<lparr>progress = Setup, timer_armed = False, listening = False, connected = False,
            disconnects = 0, reads = 0\<rparr>"

text \<open>
  \<^verbatim>\<open>if (device.gatt?.connected) { device.gatt.disconnect(); }\<close>, as both
  \<^verbatim>\<open>cleanup\<close> and the \<^verbatim>\<open>finally\<close> block have it.
\<close>

definition disconnect_if_connected :: "session \<Rightarrow> session" where
  "disconnect_if_connected s =
     (if connected s then s\<lparr>connected := False, disconnects := disconnects s + 1\<rparr> else s)"

subsection \<open>Notify-only variant\<close>

text \<open>\<^verbatim>\<open>resolve\<close> and \<^verbatim>\<open>reject\<close> of a promise: only the first call settles it.\<close>

definition settle :: "js_error + SensorData \<Rightarrow> session \<Rightarrow> session" where
  "settle r s = (case progress s of Settled old \<Rightarrow> s | _ \<Rightarrow> s\<lparr>progress := Settled r\<rparr>)"

definition cleanup :: "session \<Rightarrow> session" where
  "cleanup s = disconnect_if_connected (s\<lparr>timer_armed := False, listening := False\<rparr>)"

definition handler_notify :: "DataView option \<Rightarrow> session \<Rightarrow> session" where
  "handler_notify val s =
     (case val of
        None \<Rightarrow> s
      | Some v \<Rightarrow>
          (case parsePayload v of
             Inr (m, ec) \<Rightarrow> settle (Inr (toSensorData m ec)) (cleanup s)
           | Inl err \<Rightarrow> settle (Inl err) (cleanup s)))"

definition timeout_notify :: "session \<Rightarrow> session" where
  "timeout_notify s = settle (Inl (Error ''No data received from ESP32'')) (cleanup s)"

text \<open>
  The event loop calls the handler only while it is registered, and the timer callback
  only once and only if the timer was not cleared. No read is ever requested in this
  variant.
\<close>

fun step_notify :: "event \<Rightarrow> session \<Rightarrow> session" where
  "step_notify (Notification val) s = (if listening s then handler_notify val s else s)"
| "step_notify TimerFires s =
     (if timer_armed s then timeout_notify (s\<lparr>timer_armed := False\<rparr>) else s)"
| "step_notify (ReadCompletes r) s = s"
| "step_notify LinkLost s = s\<lparr>connected := False\<rparr>"

fun run_notify :: "event list \<Rightarrow> session \<Rightarrow> session" where
  "run_notify [] s = s"
| "run_notify (e # es) s = run_notify es (step_notify e s)"

text \<open>
  The setup awaits are not inside any \<^verbatim>\<open>try\<close>: a rejection there rejects the
  returned promise at once, with the session as it stands.
\<close>

definition connectToESP32_notify :: "transport \<Rightarrow> session" where
  "connectToESP32_notify t =
     (if \<not> has_bluetooth t
      then idle\<lparr>progress := Settled (Inl (Error ''Web Bluetooth not supported. Use Chrome.''))\<rparr>
      else case requestDevice t of
        Some e \<Rightarrow> idle\<lparr>progress := Settled (Inl e)\<rparr>
      | None \<Rightarrow>
     (case gatt_connect t of
        Some e \<Rightarrow> idle\<lparr>progress := Settled (Inl e)\<rparr>
      | None \<Rightarrow>
     (case getPrimaryService t of
        Some e \<Rightarrow> idle\<lparr>connected := True, progress := Settled (Inl e)\<rparr>
      | None \<Rightarrow>
     (case getCharacteristic t of
        Some e \<Rightarrow> idle\<lparr>connected := True, progress := Settled (Inl e)\<rparr>
      | None \<Rightarrow>
     (case startNotifications t of
        Some e \<Rightarrow> idle\<lparr>connected := True, progress := Settled (Inl e)\<rparr>
      | None \<Rightarrow>
          run_notify (schedule t)
            (idle\<lparr>connected := True, progress := Racing, timer_armed := True,
                  listening := True\<rparr>))))))"

subsection \<open>Fallback variant\<close>

text \<open>
  The function leaves its \<^verbatim>\<open>try\<close> block with \<open>r\<close> (a \<^verbatim>\<open>return\<close> or an exception):
  the \<^verbatim>\<open>finally\<close> block runs, then the returned promise settles with \<open>r\<close>.
\<close>

definition leave_try :: "js_error + SensorData \<Rightarrow> session \<Rightarrow> session" where
  "leave_try r s = (disconnect_if_connected s)\<lparr>progress := Settled r\<rparr>"

text \<open>
  The handler resolves \<^verbatim>\<open>notifPromise\<close>; the function, suspended at
  \<^verbatim>\<open>await Promise.race(...)\<close>, resumes with the reading only if the race is still
  undecided. The \<^verbatim>\<open>throw e\<close> of the \<^verbatim>\<open>catch\<close> branch is raised inside an event
  listener: the executor of \<^verbatim>\<open>notifPromise\<close> has returned long before and takes no
  \<^verbatim>\<open>reject\<close>, so the exception reaches no promise and the session goes on.
\<close>

definition handler_fallback :: "DataView option \<Rightarrow> session \<Rightarrow> session" where
  "handler_fallback val s =
     (case val of
        None \<Rightarrow> s
      | Some v \<Rightarrow>
          (case parse2Bytes v of
             Inr (m, ec) \<Rightarrow>
               (if progress s = Racing
                then leave_try (Inr (bytesToSensorData m ec)) (s\<lparr>listening := False\<rparr>)
                else s\<lparr>listening := False\<rparr>)
           | Inl err \<Rightarrow> s\<lparr>listening := False\<rparr>))"

text \<open>
  The timer resolves \<^verbatim>\<open>timeoutPromise\<close> with \<^verbatim>\<open>"timeout"\<close>; if the race is still
  undecided the function resumes, calls \<^verbatim>\<open>characteristic.readValue()\<close> and suspends
  again.
\<close>

definition timeout_fallback :: "session \<Rightarrow> session" where
  "timeout_fallback s =
     (if progress s = Racing then s\<lparr>progress := FallbackRead, reads := reads s + 1\<rparr> else s)"

definition read_done :: "js_error + DataView \<Rightarrow> session \<Rightarrow> session" where
  "read_done r s =
     (case r of
        Inl err \<Rightarrow> leave_try (Inl err) s
      | Inr v \<Rightarrow>
          (case parse2Bytes v of
             Inl err \<Rightarrow> leave_try (Inl err) s
           | Inr (m, ec) \<Rightarrow> leave_try (Inr (bytesToSensorData m ec)) s))"

fun step_fallback :: "event \<Rightarrow> session \<Rightarrow> session" where
  "step_fallback (Notification val) s = (if listening s then handler_fallback val s else s)"
| "step_fallback TimerFires s =
     (if timer_armed s then timeout_fallback (s\<lparr>timer_armed := False\<rparr>) else s)"
| "step_fallback (ReadCompletes r) s = (if progress s = FallbackRead then read_done r s else s)"
| "step_fallback LinkLost s = s\<lparr>connected := False\<rparr>"

fun run_fallback :: "event list \<Rightarrow> session \<Rightarrow> session" where
  "run_fallback [] s = s"
| "run_fallback (e # es) s = run_fallback es (step_fallback e s)"

text \<open>The \<^verbatim>\<open>try\<close> block opens after \<^verbatim>\<open>device.gatt.connect()\<close> has succeeded.\<close>

definition connectToESP32_fallback :: "transport \<Rightarrow> session" where
  "connectToESP32_fallback t =
     (if \<not> has_bluetooth t
      then idle\<lparr>progress :=
             Settled (Inl (Error ''Web Bluetooth not supported. Use Chrome on laptop/Android.''))\<rparr>
      else case requestDevice t of
        Some e \<Rightarrow> idle\<lparr>progress := Settled (Inl e)\<rparr>
      | None \<Rightarrow>
     (case gatt_connect t of
        Some e \<Rightarrow> idle\<lparr>progress := Settled (Inl e)\<rparr>
      | None \<Rightarrow>
     (case getPrimaryService t of
        Some e \<Rightarrow> leave_try (Inl e) (idle\<lparr>connected := True\<rparr>)
      | None \<Rightarrow>
     (case getCharacteristic t of
        Some e \<Rightarrow> leave_try (Inl e) (idle\<lparr>connected := True\<rparr>)
      | None \<Rightarrow>
     (case startNotifications t of
        Some e \<Rightarrow> leave_try (Inl e) (idle\<lparr>connected := True\<rparr>)
      | None \<Rightarrow>
          run_fallback (schedule t)
            (idle\<lparr>connected := True, progress := Racing, timer_armed := True,
                  listening := True\<rparr>))))))"

text \<open>
  A transport on which the whole setup succeeds, and the session as it stands when the
  subscription is in place and the race begins.
\<close>

definition online :: "event list \<Rightarrow> transport" where
  "online es =
     \<lparr>has_bluetooth = True, requestDevice = None, gatt_connect = None,
      getPrimaryService = None, getCharacteristic = None, startNotifications = None,
      schedule = es\<rparr>"

definition subscribed :: session where
  "subscribed =
     \<lparr>progress = Racing, timer_armed = True, listening = True, connected = True,
      disconnects = 0, reads = 0\<rparr>"

text \<open>Events that neither variant lets decide the race, where they stand before it is decided.\<close>

fun quiet :: "event \<Rightarrow> bool" where
  "quiet (Notification None) = True"
| "quiet (Notification (Some v)) = False"
| "quiet TimerFires = False"
| "quiet (ReadCompletes r) = True"
| "quiet LinkLost = True"

fun no_read_completion :: "event \<Rightarrow> bool" where
  "no_read_completion (ReadCompletes r) = False"
| "no_read_completion e = True"

fun is_settled :: "progress \<Rightarrow> bool" where
  "is_settled (Settled r) = True"
| "is_settled p = False"

section \<open>The crop rule table (configuration module) and the rule engine\<close>

text \<open>
  \<^verbatim>\<open>CROP_RECOMMENDATIONS\<close> is in the source; a condition object has only the keys it
  writes, so every key is optional. The Sugarcane rule spells one key \<^verbatim>\<open>pMIn\<close>; it is
  kept as the key it is. The Hindi and Gujarati crop names play no part in matching
  and are left out.
\<close>

record CropConditions =
  pHMin :: "real option"
  pHMax :: "real option"
  moistureMin :: "real option"
  nMin :: "real option"
  pMin :: "real option"
  kMin :: "real option"
  pMIn :: "real option"
  dominantWeather :: "string list option"
  season :: "string list option"

record CropRule =
  crops :: "string list"
  conditions :: CropConditions

record CropTable =
  rules :: "CropRule list"
  default_cropsEn :: "string list"

definition no_conditions :: CropConditions where
  "no_conditions =
     \<lparr>pHMin = None, pHMax = None, moistureMin = None, nMin = None, pMin = None, kMin = None,
      pMIn = None, dominantWeather = None, season = None\<rparr>"

definition wheat_rule :: CropRule where
  "wheat_rule =
     \<lparr>crops = [''Wheat'', ''Maize'', ''Corn''],
      conditions = no_conditions\<lparr>pHMin := Some 6.0, pHMax := Some 8.5, nMin := Some 50,
        pMin := Some 30, kMin := Some 50, dominantWeather := Some [''sunny'', ''cloudy''],
        season := Some [''rabi'', ''kharif'']\<rparr>\<rparr>"

definition rice_rule :: CropRule where
  "rice_rule =
     \<lparr>crops = [''Rice'', ''Paddy''],
      conditions = no_conditions\<lparr>pHMin := Some 5.5, pHMax := Some 7.5, moistureMin := Some 50,
        nMin := Some 40, pMin := Some 25, kMin := Some 40,
        dominantWeather := Some [''rainy'', ''humid''], season := Some [''kharif'']\<rparr>\<rparr>"

definition chickpea_rule :: CropRule where
  "chickpea_rule =
     \<lparr>crops = [''Chickpea'', ''Lentil'', ''Peas''],
      conditions = no_conditions\<lparr>pHMin := Some 6.0, pHMax := Some 8.0, nMin := Some 20,
        pMin := Some 25, kMin := Some 25,
        dominantWeather := Some [''cloudy'', ''windy'', ''sunny''], season := Some [''rabi'']\<rparr>\<rparr>"

definition cotton_rule :: CropRule where
  "cotton_rule =
     \<lparr>crops = [''Cotton'', ''Soybean''],
      conditions = no_conditions\<lparr>pHMin := Some 6.0, pHMax := Some 8.0, nMin := Some 45,
        pMin := Some 30, kMin := Some 45, dominantWeather := Some [''sunny'', ''humid''],
        season := Some [''kharif'']\<rparr>\<rparr>"

definition sugarcane_rule :: CropRule where
  "sugarcane_rule =
     \<lparr>crops = [''Sugarcane''],
      conditions = no_conditions\<lparr>pHMin := Some 6.0, pHMax := Some 8.5, nMin := Some 65,
        pMIn := Some 40, kMin := Some 65, moistureMin := Some 50,
        dominantWeather := Some [''sunny'', ''humid'', ''rainy'']\<rparr>\<rparr>"

definition potato_rule :: CropRule where
  "potato_rule =
     \<lparr>crops = [''Potato'', ''Vegetables''],
      conditions = no_conditions\<lparr>pHMin := Some 5.5, pHMax := Some 7.0, nMin := Some 40,
        pMin := Some 35, kMin := Some 40, dominantWeather := Some [''cloudy'', ''sunny''],
        season := Some [''rabi'', ''zaid'']\<rparr>\<rparr>"

definition CROP_RECOMMENDATIONS :: CropTable where
  "CROP_RECOMMENDATIONS =
     \<lparr>rules = [wheat_rule, rice_rule, chickpea_rule, cotton_rule, sugarcane_rule, potato_rule],
      default_cropsEn = [''General Crops'', ''Vegetables'']\<rparr>"

text \<open>
  Modelled from the spec: the rule engine \<^verbatim>\<open>recommend\<close> (and the matching of one
  rule) is not in the source, which holds only the table. The spec's section 4.4: the
  rules are tried in their declared order; a rule matches iff every bound it has is
  satisfied, numeric bounds inclusive, a weather or season constraint satisfied iff the
  context's value is in the rule's set or the rule has no such constraint; the first
  matching rule's crops are returned, the default crops if none matches. The engine
  reads the bounds it knows by name, so \<^verbatim>\<open>pMIn\<close> constrains nothing.
\<close>

record GrowingContext =
  weather :: string
  growing_season :: string

definition lower_bound_ok :: "real option \<Rightarrow> real \<Rightarrow> bool" where
  "lower_bound_ok b x = (case b of None \<Rightarrow> True | Some lo \<Rightarrow> lo \<le> x)"

definition upper_bound_ok :: "real option \<Rightarrow> real \<Rightarrow> bool" where
  "upper_bound_ok b x = (case b of None \<Rightarrow> True | Some hi \<Rightarrow> x \<le> hi)"

definition member_ok :: "string list option \<Rightarrow> string \<Rightarrow> bool" where
  "member_ok allowed x = (case allowed of None \<Rightarrow> True | Some xs \<Rightarrow> x \<in> set xs)"

definition rule_matches :: "CropConditions \<Rightarrow> SensorData \<Rightarrow> GrowingContext \<Rightarrow> bool" where
  "rule_matches c r cx =
     (lower_bound_ok (pHMin c) (pH r) \<and> upper_bound_ok (pHMax c) (pH r)
      \<and> lower_bound_ok (moistureMin c) (moisture r)
      \<and> lower_bound_ok (nMin c) (nitrogen r)
      \<and> lower_bound_ok (pMin c) (phosphorus r)
      \<and> lower_bound_ok (kMin c) (potassium r)
      \<and> member_ok (dominantWeather c) (weather cx)
      \<and> member_ok (season c) (growing_season cx))"

fun first_match :: "CropRule list \<Rightarrow> string list \<Rightarrow> SensorData \<Rightarrow> GrowingContext \<Rightarrow> string list" where
  "first_match [] d r cx = d"
| "first_match (x # xs) d r cx =
     (if rule_matches (conditions x) r cx then crops x else first_match xs d r cx)"

definition recommend :: "CropTable \<Rightarrow> SensorData \<Rightarrow> GrowingContext \<Rightarrow> string list" where
  "recommend table r cx = first_match (rules table) (default_cropsEn table) r cx"

section \<open>Decoder lemmas\<close>

lemma getUint8_in_range: "i < length v \<Longrightarrow> getUint8 v i = Inr (real (unat (v ! i)))"
  by (simp add: getUint8_def)

lemma parsePayload_two: "parsePayload [m, e] = Inr (real (unat m), real (unat e))"
  by (simp add: parsePayload_def getUint8_def)

lemma parse2Bytes_at_least_two:
  "2 \<le> length v \<Longrightarrow> parse2Bytes v = Inr (real (unat (v ! 0)), real (unat (v ! 1)))"
  by (cases v; cases "tl v") (auto simp: parse2Bytes_def getUint8_def)

lemma parse2Bytes_two: "parse2Bytes [m, e] = Inr (real (unat m), real (unat e))"
  by (simp add: parse2Bytes_at_least_two)

lemma length_two_cases: "length v = 2 \<Longrightarrow> \<exists>m e. v = [m, e]"
  by (cases v; cases "tl v") auto

lemma parsePayload_fails: "length v \<noteq> 2 \<Longrightarrow> parsePayload v = Inl (InvalidBLEPayloadLength (length v))"
  by (simp add: parsePayload_def)

lemma parse2Bytes_fails: "length v < 2 \<Longrightarrow> parse2Bytes v = Inl (Expected2Bytes (length v))"
  by (simp add: parse2Bytes_def)

text \<open>
  C4. For all bytes \<open>m\<close> and \<open>e\<close>, decoding the two-byte buffer \<open>[m, e]\<close> gives, in both
  variants, the reading whose moisture is \<open>m\<close>, whose tds, nitrogen, phosphorus and
  potassium are all \<open>e\<close>, and whose pH is 0.
\<close>

theorem decoder_mapping:
  "decode_notify [m, e] =
     Inr \<lparr>pH = 0, moisture = real (unat m), tds = real (unat e), nitrogen = real (unat e),
          phosphorus = real (unat e), potassium = real (unat e)\<rparr>
   \<and> decode_fallback [m, e] =
     Inr \<lparr>pH = 0, moisture = real (unat m), tds = real (unat e), nitrogen = real (unat e),
          phosphorus = real (unat e), potassium = real (unat e)\<rparr>"
  by (simp add: decode_notify_def decode_fallback_def parsePayload_two parse2Bytes_two
      toSensorData_def bytesToSensorData_def)

text \<open>
  C9. On every buffer of length exactly 2 the two decode pipelines agree:
  \<^verbatim>\<open>parsePayload\<close> followed by \<^verbatim>\<open>toSensorData\<close> and \<^verbatim>\<open>parse2Bytes\<close> followed by
  \<^verbatim>\<open>bytesToSensorData\<close> return the same \<^verbatim>\<open>SensorData\<close>, and both succeed.
\<close>

theorem decode_pipelines_agree:
  assumes "length v = 2"
  shows "decode_notify v = decode_fallback v \<and> (\<exists>d. decode_notify v = Inr d)"
proof -
  from assms obtain m e where v: "v = [m, e]"
    using length_two_cases by blast
  show ?thesis
    unfolding v
    by (simp add: decode_notify_def decode_fallback_def parsePayload_two parse2Bytes_two
        toSensorData_def bytesToSensorData_def)
qed

theorem decode_pipelines_agree_witness:
  "length [42, 17 :: byte] = 2
   \<and> decode_notify [42, 17] = decode_fallback [42, 17]
   \<and> decode_fallback [42, 17] = Inr (toSensorData 42 17)"
  using decode_pipelines_agree [of "[42, 17]"]
  by (simp add: decode_fallback_def parse2Bytes_two bytesToSensorData_def toSensorData_def)

text \<open>
  C3 (as amended). A buffer of length exactly 2 is decoded by both variants. The
  notify-only decoder (\<^verbatim>\<open>parsePayload\<close>) fails on every other length, with the error
  that reports the length. The fallback decoder (\<^verbatim>\<open>parse2Bytes\<close>) fails only on
  lengths below 2; a longer buffer is decoded from its first two bytes.
\<close>

theorem decoder_length_contract:
  "decode_notify v =
     (if length v = 2 then Inr (toSensorData (real (unat (v ! 0))) (real (unat (v ! 1))))
      else Inl (InvalidBLEPayloadLength (length v)))
   \<and> decode_fallback v =
     (if length v < 2 then Inl (Expected2Bytes (length v))
      else Inr (bytesToSensorData (real (unat (v ! 0))) (real (unat (v ! 1)))))"
proof -
  have n: "decode_notify v =
     (if length v = 2 then Inr (toSensorData (real (unat (v ! 0))) (real (unat (v ! 1))))
      else Inl (InvalidBLEPayloadLength (length v)))"
    by (simp add: decode_notify_def parsePayload_def getUint8_def)
  have f: "decode_fallback v =
     (if length v < 2 then Inl (Expected2Bytes (length v))
      else Inr (bytesToSensorData (real (unat (v ! 0))) (real (unat (v ! 1)))))"
    by (simp add: decode_fallback_def parse2Bytes_at_least_two parse2Bytes_fails)
  from n f show ?thesis by (rule conjI)
qed

text \<open>
  C3, the claim as written, fails on the fallback decoder: a three-byte buffer is
  accepted, and decoded from its first two bytes.
\<close>

theorem parse2Bytes_accepts_three_bytes:
  "decode_fallback [42, 17, 99] = Inr (bytesToSensorData 42 17)"
  by (simp add: decode_fallback_def parse2Bytes_at_least_two)

text \<open>
  C8. For the reading with pH 6.5, moisture 55, nitrogen 60, phosphorus 35 and potassium
  55 (any tds), in rainy weather in the kharif season, the rule engine returns exactly
  Rice and Paddy from the table of the source: the Wheat rule, first in the declared
  order, does not match (its weather set lacks rainy), the Rice rule, second, matches,
  and the result is the same whatever rules follow the Rice rule and whatever the
  default is.
\<close>

theorem rice_scenario:
  "recommend CROP_RECOMMENDATIONS
     \<lparr>pH = 6.5, moisture = 55, tds = t, nitrogen = 60, phosphorus = 35, potassium = 55\<rparr>
     \<lparr>weather = ''rainy'', growing_season = ''kharif''\<rparr> = [''Rice'', ''Paddy'']
   \<and> \<not> rule_matches (conditions wheat_rule)
     \<lparr>pH = 6.5, moisture = 55, tds = t, nitrogen = 60, phosphorus = 35, potassium = 55\<rparr>
     \<lparr>weather = ''rainy'', growing_season = ''kharif''\<rparr>
   \<and> \<not> member_ok (dominantWeather (conditions wheat_rule)) ''rainy''
   \<and> rule_matches (conditions rice_rule)
     \<lparr>pH = 6.5, moisture = 55, tds = t, nitrogen = 60, phosphorus = 35, potassium = 55\<rparr>
     \<lparr>weather = ''rainy'', growing_season = ''kharif''\<rparr>
   \<and> recommend \<lparr>rules = wheat_rule # rice_rule # later, default_cropsEn = d\<rparr>
     \<lparr>pH = 6.5, moisture = 55, tds = t, nitrogen = 60, phosphorus = 35, potassium = 55\<rparr>
     \<lparr>weather = ''rainy'', growing_season = ''kharif''\<rparr> = [''Rice'', ''Paddy'']"
  by (simp add: recommend_def CROP_RECOMMENDATIONS_def wheat_rule_def rice_rule_def
      no_conditions_def rule_matches_def lower_bound_ok_def upper_bound_ok_def member_ok_def)

section \<open>Session lemmas\<close>

lemma run_notify_append: "run_notify (xs @ ys) s = run_notify ys (run_notify xs s)"
  by (induction xs arbitrary: s) simp_all

lemma run_fallback_append: "run_fallback (xs @ ys) s = run_fallback ys (run_fallback xs s)"
  by (induction xs arbitrary: s) simp_all

lemma connect_notify_online: "connectToESP32_notify (online es) = run_notify es subscribed"
  by (simp add: connectToESP32_notify_def online_def subscribed_def idle_def)

lemma connect_fallback_online: "connectToESP32_fallback (online es) = run_fallback es subscribed"
  by (simp add: connectToESP32_fallback_def online_def subscribed_def idle_def)

lemma step_notify_empty: "step_notify (Notification None) s = s"
  by (simp add: handler_notify_def)

lemma step_fallback_empty: "step_fallback (Notification None) s = s"
  by (simp add: handler_fallback_def)

lemma cleanup_sel:
  "\<not> timer_armed (cleanup s)" "\<not> listening (cleanup s)" "\<not> connected (cleanup s)"
  "progress (cleanup s) = progress s" "reads (cleanup s) = reads s"
  "disconnects (cleanup s) = (if connected s then disconnects s + 1 else disconnects s)"
  by (simp_all add: cleanup_def disconnect_if_connected_def)

lemma settle_sel:
  "timer_armed (settle r s) = timer_armed s" "listening (settle r s) = listening s"
  "connected (settle r s) = connected s" "reads (settle r s) = reads s"
  "disconnects (settle r s) = disconnects s"
  "is_settled (progress (settle r s))"
  "\<not> is_settled (progress s) \<Longrightarrow> progress (settle r s) = Settled r"
  by (cases "progress s"; simp add: settle_def)+

lemma step_notify_finished:
  assumes "\<not> listening s" "\<not> timer_armed s" "\<not> connected s"
  shows "step_notify e s = s"
  using assms by (cases e) simp_all

lemma run_notify_finished:
  assumes "\<not> listening s" "\<not> timer_armed s" "\<not> connected s"
  shows "run_notify es s = s"
  using assms by (induction es) (simp_all add: step_notify_finished)

lemma step_notify_inv:
  assumes "if is_settled (progress s) then \<not> listening s \<and> \<not> timer_armed s \<and> \<not> connected s
           else listening s \<and> timer_armed s"
  shows "if is_settled (progress (step_notify e s))
         then \<not> listening (step_notify e s) \<and> \<not> timer_armed (step_notify e s) \<and> \<not> connected (step_notify e s)
         else listening (step_notify e s) \<and> timer_armed (step_notify e s)"
proof (cases "is_settled (progress s)")
  case True
  with assms have "step_notify e s = s" by (simp add: step_notify_finished)
  with assms show ?thesis by simp
next
  case False
  with assms have a: "listening s" "timer_armed s" by simp_all
  show ?thesis
  proof (cases e)
    case (Notification val)
    then show ?thesis using a False
      by (cases val) (auto simp: handler_notify_def settle_sel cleanup_sel split: sum.splits)
  next
    case TimerFires
    then show ?thesis using a by (simp add: timeout_notify_def settle_sel cleanup_sel)
  next
    case (ReadCompletes r)
    then show ?thesis using a False by simp
  next
    case LinkLost
    then show ?thesis using a False by simp
  qed
qed

lemma subscribed_sel:
  "progress subscribed = Racing" "timer_armed subscribed" "listening subscribed"
  "connected subscribed" "disconnects subscribed = 0" "reads subscribed = 0"
  by (simp_all add: subscribed_def)

lemma run_notify_inv:
  assumes "if is_settled (progress s) then \<not> listening s \<and> \<not> timer_armed s \<and> \<not> connected s
           else listening s \<and> timer_armed s"
  shows "if is_settled (progress (run_notify es s))
         then \<not> listening (run_notify es s) \<and> \<not> timer_armed (run_notify es s) \<and> \<not> connected (run_notify es s)
         else listening (run_notify es s) \<and> timer_armed (run_notify es s)"
  using assms
proof (induction es arbitrary: s)
  case Nil
  then show ?case by simp
next
  case (Cons e es)
  have "if is_settled (progress (step_notify e s))
         then \<not> listening (step_notify e s) \<and> \<not> timer_armed (step_notify e s) \<and> \<not> connected (step_notify e s)
         else listening (step_notify e s) \<and> timer_armed (step_notify e s)"
    using Cons.prems by (rule step_notify_inv)
  then show ?case using Cons.IH [of "step_notify e s"] by simp
qed

lemma run_notify_subscribed_inv:
  "if is_settled (progress (run_notify es subscribed))
   then \<not> listening (run_notify es subscribed) \<and> \<not> timer_armed (run_notify es subscribed)
        \<and> \<not> connected (run_notify es subscribed)
   else listening (run_notify es subscribed) \<and> timer_armed (run_notify es subscribed)"
  by (rule run_notify_inv) (simp add: subscribed_sel)

lemma notify_settled_fixed:
  assumes "is_settled (progress (run_notify pre subscribed))"
  shows "run_notify (pre @ post) subscribed = run_notify pre subscribed"
    and "\<not> listening (run_notify pre subscribed)"
    and "\<not> timer_armed (run_notify pre subscribed)"
    and "\<not> connected (run_notify pre subscribed)"
proof -
  from assms run_notify_subscribed_inv [of pre]
  show a: "\<not> listening (run_notify pre subscribed)"
    and b: "\<not> timer_armed (run_notify pre subscribed)"
    and c: "\<not> connected (run_notify pre subscribed)"
    by simp_all
  from a b c show "run_notify (pre @ post) subscribed = run_notify pre subscribed"
    by (simp add: run_notify_append run_notify_finished)
qed

lemma step_notify_decisive:
  assumes "listening s" "timer_armed s" "\<not> quiet e"
  shows "is_settled (progress (step_notify e s))"
  using assms
  by (cases e rule: quiet.cases)
     (auto simp: handler_notify_def timeout_notify_def settle_sel split: sum.splits)

lemma step_notify_keeps_settled:
  "is_settled (progress s) \<Longrightarrow> is_settled (progress (step_notify e s))"
  by (cases e rule: quiet.cases)
     (auto simp: handler_notify_def timeout_notify_def settle_sel split: sum.splits)

lemma run_notify_keeps_settled:
  "is_settled (progress s) \<Longrightarrow> is_settled (progress (run_notify es s))"
  by (induction es arbitrary: s) (simp_all add: step_notify_keeps_settled)

lemma run_notify_decisive:
  assumes "if is_settled (progress s) then \<not> listening s \<and> \<not> timer_armed s \<and> \<not> connected s
           else listening s \<and> timer_armed s"
    and "list_ex (\<lambda>e. \<not> quiet e) es"
  shows "is_settled (progress (run_notify es s))"
  using assms
proof (induction es arbitrary: s)
  case Nil
  then show ?case by simp
next
  case (Cons e es)
  show ?case
  proof (cases "is_settled (progress s)")
    case True
    then show ?thesis by (rule run_notify_keeps_settled)
  next
    case False
    with Cons.prems(1) have a: "listening s" "timer_armed s" by simp_all
    show ?thesis
    proof (cases "quiet e")
      case True
      with Cons.prems(2) have "list_ex (\<lambda>e. \<not> quiet e) es" by simp
      moreover have "if is_settled (progress (step_notify e s))
         then \<not> listening (step_notify e s) \<and> \<not> timer_armed (step_notify e s) \<and> \<not> connected (step_notify e s)
         else listening (step_notify e s) \<and> timer_armed (step_notify e s)"
        using Cons.prems(1) by (rule step_notify_inv)
      ultimately show ?thesis using Cons.IH [of "step_notify e s"] by simp
    next
      case False
      with a have "is_settled (progress (step_notify e s))" by (simp add: step_notify_decisive)
      then show ?thesis by (simp add: run_notify_keeps_settled)
    qed
  qed
qed

subsection \<open>Fallback variant: what each phase lets through\<close>

lemma leave_try_sel:
  "progress (leave_try r s) = Settled r" "\<not> connected (leave_try r s)"
  "reads (leave_try r s) = reads s" "listening (leave_try r s) = listening s"
  "timer_armed (leave_try r s) = timer_armed s"
  "disconnects (leave_try r s) = (if connected s then disconnects s + 1 else disconnects s)"
  by (simp_all add: leave_try_def disconnect_if_connected_def)

lemma step_fallback_settled:
  assumes "progress s = Settled r"
  shows "progress (step_fallback e s) = Settled r"
    and "disconnects (step_fallback e s) = disconnects s"
    and "reads (step_fallback e s) = reads s"
    and "connected s = False \<Longrightarrow> connected (step_fallback e s) = False"
  using assms
  by (cases e rule: quiet.cases;
      simp add: handler_fallback_def timeout_fallback_def split: sum.splits prod.splits)+

lemma run_fallback_settled:
  assumes "progress s = Settled r"
  shows "progress (run_fallback es s) = Settled r
         \<and> disconnects (run_fallback es s) = disconnects s
         \<and> reads (run_fallback es s) = reads s"
  using assms
proof (induction es arbitrary: s)
  case Nil
  then show ?case by simp
next
  case (Cons e es)
  from Cons.prems have "progress (step_fallback e s) = Settled r"
    by (rule step_fallback_settled(1))
  from Cons.IH [OF this] show ?case
    using Cons.prems by (simp add: step_fallback_settled)
qed

lemma step_fallback_reading:
  assumes "progress s = FallbackRead" "no_read_completion e"
  shows "progress (step_fallback e s) = FallbackRead"
    and "disconnects (step_fallback e s) = disconnects s"
    and "reads (step_fallback e s) = reads s"
  using assms
  by (cases e rule: quiet.cases;
      simp add: handler_fallback_def timeout_fallback_def split: sum.splits prod.splits)+

lemma run_fallback_reading:
  assumes "progress s = FallbackRead" "list_all no_read_completion es"
  shows "progress (run_fallback es s) = FallbackRead
         \<and> disconnects (run_fallback es s) = disconnects s
         \<and> reads (run_fallback es s) = reads s"
  using assms
proof (induction es arbitrary: s)
  case Nil
  then show ?case by simp
next
  case (Cons e es)
  from Cons.prems have e: "no_read_completion e" and es: "list_all no_read_completion es"
    by simp_all
  from Cons.prems(1) e have p: "progress (step_fallback e s) = FallbackRead"
    by (rule step_fallback_reading(1))
  from Cons.IH [OF p es] show ?case
    using Cons.prems(1) e by (simp add: step_fallback_reading)
qed

lemma step_fallback_quiet:
  assumes "progress s = Racing" "quiet e"
  shows "progress (step_fallback e s) = Racing"
    and "disconnects (step_fallback e s) = disconnects s"
    and "reads (step_fallback e s) = reads s"
    and "listening (step_fallback e s) = listening s"
    and "timer_armed (step_fallback e s) = timer_armed s"
  using assms
  by (cases e rule: quiet.cases; simp add: handler_fallback_def)+

lemma run_fallback_quiet:
  assumes "progress s = Racing" "list_all quiet es"
  shows "progress (run_fallback es s) = Racing
         \<and> disconnects (run_fallback es s) = disconnects s
         \<and> reads (run_fallback es s) = reads s
         \<and> listening (run_fallback es s) = listening s
         \<and> timer_armed (run_fallback es s) = timer_armed s"
  using assms
proof (induction es arbitrary: s)
  case Nil
  then show ?case by simp
next
  case (Cons e es)
  from Cons.prems have e: "quiet e" and es: "list_all quiet es"
    by simp_all
  from Cons.prems(1) e have p: "progress (step_fallback e s) = Racing"
    by (rule step_fallback_quiet(1))
  from Cons.IH [OF p es] show ?case
    using Cons.prems(1) e by (simp add: step_fallback_quiet)
qed

lemma step_fallback_not_racing:
  "progress s \<noteq> Racing \<Longrightarrow> progress (step_fallback e s) \<noteq> Racing"
  by (cases e rule: quiet.cases)
     (auto simp: handler_fallback_def timeout_fallback_def read_done_def leave_try_sel
           split: sum.splits prod.splits)

lemma run_fallback_not_racing:
  "progress s \<noteq> Racing \<Longrightarrow> progress (run_fallback es s) \<noteq> Racing"
  by (induction es arbitrary: s) (simp_all add: step_fallback_not_racing)

lemma step_fallback_timer_inv:
  assumes "progress s \<noteq> Racing \<or> timer_armed s"
  shows "progress (step_fallback e s) \<noteq> Racing \<or> timer_armed (step_fallback e s)"
  using assms
  by (cases e rule: quiet.cases)
     (auto simp: handler_fallback_def timeout_fallback_def read_done_def leave_try_sel
           split: sum.splits prod.splits)

lemma run_fallback_timer_decides:
  assumes "progress s \<noteq> Racing \<or> timer_armed s" "TimerFires \<in> set es"
  shows "progress (run_fallback es s) \<noteq> Racing"
  using assms
proof (induction es arbitrary: s)
  case Nil
  then show ?case by simp
next
  case (Cons e es)
  show ?case
  proof (cases "e = TimerFires")
    case True
    with Cons.prems(1) have "progress (step_fallback e s) \<noteq> Racing"
      by (auto simp: timeout_fallback_def)
    then show ?thesis by (simp add: run_fallback_not_racing)
  next
    case False
    with Cons.prems(2) have "TimerFires \<in> set es" by simp
    moreover have "progress (step_fallback e s) \<noteq> Racing \<or> timer_armed (step_fallback e s)"
      using Cons.prems(1) by (rule step_fallback_timer_inv)
    ultimately show ?thesis using Cons.IH [of "step_fallback e s"] by simp
  qed
qed

lemma fallback_notification_first:
  assumes ns: "list_all quiet ns" and v: "parse2Bytes v = Inr (m, ec)"
  shows "progress (run_fallback (ns @ Notification (Some v) # rest) subscribed)
           = Settled (Inr (bytesToSensorData m ec))"
    and "reads (run_fallback (ns @ Notification (Some v) # rest) subscribed) = 0"
proof -
  let ?s = "run_fallback ns subscribed"
  from run_fallback_quiet [of subscribed ns] ns
  have s: "progress ?s = Racing" "reads ?s = 0" "listening ?s" "timer_armed ?s"
    by (simp_all add: subscribed_sel)
  let ?s' = "step_fallback (Notification (Some v)) ?s"
  from s v have s': "progress ?s' = Settled (Inr (bytesToSensorData m ec))" "reads ?s' = 0"
    by (simp_all add: handler_fallback_def leave_try_sel)
  from run_fallback_settled [OF s'(1), of rest] s'(2)
  show "progress (run_fallback (ns @ Notification (Some v) # rest) subscribed)
           = Settled (Inr (bytesToSensorData m ec))"
    and "reads (run_fallback (ns @ Notification (Some v) # rest) subscribed) = 0"
    by (simp_all add: run_fallback_append)
qed

lemma fallback_timer_first:
  assumes ns: "list_all quiet ns" and ms: "list_all no_read_completion ms"
  shows "progress (run_fallback (ns @ TimerFires # ms) subscribed) = FallbackRead"
    and "reads (run_fallback (ns @ TimerFires # ms) subscribed) = 1"
    and "disconnects (run_fallback (ns @ TimerFires # ms) subscribed) = 0"
    and "listening (run_fallback (ns @ [TimerFires]) subscribed)"
proof -
  let ?s = "run_fallback ns subscribed"
  from run_fallback_quiet [of subscribed ns] ns
  have s: "progress ?s = Racing" "reads ?s = 0" "listening ?s" "timer_armed ?s" "disconnects ?s = 0"
    by (simp_all add: subscribed_sel)
  let ?s' = "step_fallback TimerFires ?s"
  from s have s': "progress ?s' = FallbackRead" "reads ?s' = 1" "disconnects ?s' = 0" "listening ?s'"
    by (simp_all add: timeout_fallback_def)
  from run_fallback_reading [OF s'(1) ms] s'(2,3)
  show "progress (run_fallback (ns @ TimerFires # ms) subscribed) = FallbackRead"
    and "reads (run_fallback (ns @ TimerFires # ms) subscribed) = 1"
    and "disconnects (run_fallback (ns @ TimerFires # ms) subscribed) = 0"
    by (simp_all add: run_fallback_append)
  from s'(4) show "listening (run_fallback (ns @ [TimerFires]) subscribed)"
    by (simp add: run_fallback_append)
qed

lemma read_done_sel:
  "is_settled (progress (read_done r s))" "reads (read_done r s) = reads s"
  "disconnects (read_done r s) = (if connected s then disconnects s + 1 else disconnects s)"
  "\<not> connected (read_done r s)"
  by (simp_all add: read_done_def leave_try_sel split: sum.splits prod.splits)

lemma is_settled_cases: "is_settled p \<Longrightarrow> \<exists>x. p = Settled x"
  by (cases p) simp_all

lemma fallback_read_result:
  assumes ns: "list_all quiet ns" and ms: "list_all no_read_completion ms"
  shows "progress (run_fallback (ns @ TimerFires # ms @ ReadCompletes r # rest) subscribed)
           = progress (read_done r (run_fallback (ns @ TimerFires # ms) subscribed))"
    and "reads (run_fallback (ns @ TimerFires # ms @ ReadCompletes r # rest) subscribed) = 1"
    and "disconnects (run_fallback (ns @ TimerFires # ms @ ReadCompletes r # rest) subscribed) \<le> 1"
proof -
  let ?s = "run_fallback (ns @ TimerFires # ms) subscribed"
  from fallback_timer_first [OF ns ms]
  have s: "progress ?s = FallbackRead" "reads ?s = 1" "disconnects ?s = 0"
    by simp_all
  let ?s' = "step_fallback (ReadCompletes r) ?s"
  have eq: "?s' = read_done r ?s" using s by simp
  obtain x where x: "progress (read_done r ?s) = Settled x"
    using is_settled_cases [OF read_done_sel(1)] by blast
  have rd: "reads (read_done r ?s) = 1" "disconnects (read_done r ?s) \<le> 1"
    using s by (simp_all add: read_done_sel)
  have split: "run_fallback (ns @ TimerFires # ms @ ReadCompletes r # rest) subscribed
        = run_fallback rest (read_done r ?s)"
    using eq run_fallback_append [of "ns @ TimerFires # ms" "ReadCompletes r # rest" subscribed]
    by simp
  from run_fallback_settled [OF x, of rest] x rd
  show "progress (run_fallback (ns @ TimerFires # ms @ ReadCompletes r # rest) subscribed)
           = progress (read_done r ?s)"
    and "reads (run_fallback (ns @ TimerFires # ms @ ReadCompletes r # rest) subscribed) = 1"
    and "disconnects (run_fallback (ns @ TimerFires # ms @ ReadCompletes r # rest) subscribed) \<le> 1"
    by (simp_all add: split)
qed

subsection \<open>Teardown accounting\<close>

text \<open>
  Only \<open>disconnect_if_connected\<close> counts a disconnect, and it leaves the link down: a
  session that starts out connected, with no disconnect yet, never disconnects twice.
\<close>

lemma disconnect_budget:
  "disconnects s + (if connected s then 1 else 0) \<le> 1 \<Longrightarrow>
   disconnects (disconnect_if_connected s) + (if connected (disconnect_if_connected s) then 1 else 0) \<le> 1"
  by (auto simp: disconnect_if_connected_def split: if_splits)

lemma step_fallback_budget:
  assumes "disconnects s + (if connected s then 1 else 0) \<le> 1"
  shows "disconnects (step_fallback e s) + (if connected (step_fallback e s) then 1 else 0) \<le> 1"
  using assms
  by (cases e rule: quiet.cases)
     (auto simp: handler_fallback_def timeout_fallback_def read_done_def leave_try_sel
           split: sum.splits prod.splits if_splits)

lemma run_fallback_budget:
  assumes "disconnects s + (if connected s then 1 else 0) \<le> 1"
  shows "disconnects (run_fallback es s) \<le> 1"
  using assms
proof (induction es arbitrary: s)
  case Nil
  then show ?case by (simp split: if_splits)
next
  case (Cons e es)
  from Cons.prems have "disconnects (step_fallback e s) + (if connected (step_fallback e s) then 1 else 0) \<le> 1"
    by (rule step_fallback_budget)
  from Cons.IH [OF this] show ?case by simp
qed

lemma step_fallback_down:
  assumes "is_settled (progress s) \<longrightarrow> \<not> connected s"
  shows "is_settled (progress (step_fallback e s)) \<longrightarrow> \<not> connected (step_fallback e s)"
  using assms
  by (cases e rule: quiet.cases)
     (auto simp: handler_fallback_def timeout_fallback_def read_done_def leave_try_sel
           split: sum.splits prod.splits if_splits)

lemma run_fallback_down:
  assumes "is_settled (progress s) \<longrightarrow> \<not> connected s"
  shows "is_settled (progress (run_fallback es s)) \<longrightarrow> \<not> connected (run_fallback es s)"
  using assms
proof (induction es arbitrary: s)
  case Nil
  then show ?case by simp
next
  case (Cons e es)
  from Cons.prems have "is_settled (progress (step_fallback e s)) \<longrightarrow> \<not> connected (step_fallback e s)"
    by (rule step_fallback_down)
  from Cons.IH [OF this] show ?case by simp
qed

text \<open>
  The fallback variant, on every transport: whenever the call has settled the link is
  down, and \<^verbatim>\<open>disconnect\<close> was called at most once.
\<close>

lemma teardown_fallback:
  "disconnects (connectToESP32_fallback t) \<le> 1
   \<and> (is_settled (progress (connectToESP32_fallback t)) \<longrightarrow> \<not> connected (connectToESP32_fallback t))"
proof -
  let ?s0 = "idle\<lparr>connected := True, progress := Racing, timer_armed := True, listening := True\<rparr>"
  have b: "disconnects (run_fallback (schedule t) ?s0) \<le> 1"
    by (rule run_fallback_budget) (simp add: idle_def)
  have d: "is_settled (progress (run_fallback (schedule t) ?s0))
           \<longrightarrow> \<not> connected (run_fallback (schedule t) ?s0)"
    by (rule run_fallback_down) simp
  from b d show ?thesis
    by (simp add: connectToESP32_fallback_def leave_try_sel idle_def split: option.splits)
qed

text \<open>
  The notify-only variant, once the subscription is in place: whenever the call has
  settled the link is down, and \<^verbatim>\<open>disconnect\<close> was called at most once.
\<close>

lemma step_notify_budget:
  assumes "disconnects s + (if connected s then 1 else 0) \<le> 1"
  shows "disconnects (step_notify e s) + (if connected (step_notify e s) then 1 else 0) \<le> 1"
  using assms
  by (cases e rule: quiet.cases)
     (auto simp: handler_notify_def timeout_notify_def settle_sel cleanup_sel
           split: sum.splits prod.splits if_splits)

lemma run_notify_budget:
  assumes "disconnects s + (if connected s then 1 else 0) \<le> 1"
  shows "disconnects (run_notify es s) \<le> 1"
  using assms
proof (induction es arbitrary: s)
  case Nil
  then show ?case by (simp split: if_splits)
next
  case (Cons e es)
  from Cons.prems have "disconnects (step_notify e s) + (if connected (step_notify e s) then 1 else 0) \<le> 1"
    by (rule step_notify_budget)
  from Cons.IH [OF this] show ?case by simp
qed

lemma teardown_notify_after_subscription:
  "disconnects (connectToESP32_notify (online es)) \<le> 1
   \<and> (is_settled (progress (connectToESP32_notify (online es)))
        \<longrightarrow> \<not> connected (connectToESP32_notify (online es)))"
proof -
  have "disconnects (run_notify es subscribed) \<le> 1"
    by (rule run_notify_budget) (simp add: subscribed_sel)
  then show ?thesis
    using run_notify_subscribed_inv [of es] by (simp add: connect_notify_online)
qed

subsection \<open>Fallback variant: neither path cancels the other\<close>

lemma step_fallback_timer_pending:
  "e \<noteq> TimerFires \<Longrightarrow> timer_armed (step_fallback e s) = timer_armed s"
  by (cases e rule: quiet.cases)
     (auto simp: handler_fallback_def timeout_fallback_def read_done_def leave_try_sel
           split: sum.splits prod.splits)

lemma run_fallback_timer_pending:
  "TimerFires \<notin> set es \<Longrightarrow> timer_armed (run_fallback es s) = timer_armed s"
proof (induction es arbitrary: s)
  case Nil
  then show ?case by simp
next
  case (Cons e es)
  then have e: "e \<noteq> TimerFires" and es: "TimerFires \<notin> set es" by auto
  from Cons.IH [OF es, of "step_fallback e s"] step_fallback_timer_pending [OF e, of s]
  show ?case by simp
qed

lemma timeout_keeps_handler: "listening (step_fallback TimerFires s) = listening s"
  by (simp add: timeout_fallback_def)

text \<open>The equations that evaluate a session on a concrete schedule.\<close>

lemmas session_eval =
  connect_notify_online connect_fallback_online subscribed_def
  handler_notify_def handler_fallback_def timeout_notify_def timeout_fallback_def read_done_def
  leave_try_def cleanup_def settle_def disconnect_if_connected_def
  parsePayload_def parse2Bytes_def getUint8_def

section \<open>The acquisition race\<close>

text \<open>
  C10. A \<^verbatim>\<open>characteristicvaluechanged\<close> event whose characteristic carries no value
  leaves the session exactly as it was, in both variants: nothing is resolved,
  rejected or torn down, so the call ends as it would have without that event,
  wherever the event stands in the schedule and whatever the transport.
\<close>

theorem empty_notification_ignored:
  "step_notify (Notification None) s = s
   \<and> step_fallback (Notification None) s = s
   \<and> connectToESP32_notify (t\<lparr>schedule := pre @ Notification None # post\<rparr>)
       = connectToESP32_notify (t\<lparr>schedule := pre @ post\<rparr>)
   \<and> connectToESP32_fallback (t\<lparr>schedule := pre @ Notification None # post\<rparr>)
       = connectToESP32_fallback (t\<lparr>schedule := pre @ post\<rparr>)"
proof -
  have n: "run_notify (pre @ Notification None # post) s0 = run_notify (pre @ post) s0" for s0
    by (simp add: run_notify_append handler_notify_def)
  have f: "run_fallback (pre @ Notification None # post) s0 = run_fallback (pre @ post) s0" for s0
    by (simp add: run_fallback_append handler_fallback_def)
  have 1: "connectToESP32_notify (t\<lparr>schedule := pre @ Notification None # post\<rparr>)
       = connectToESP32_notify (t\<lparr>schedule := pre @ post\<rparr>)"
    by (simp add: connectToESP32_notify_def n split: option.splits)
  have 2: "connectToESP32_fallback (t\<lparr>schedule := pre @ Notification None # post\<rparr>)
       = connectToESP32_fallback (t\<lparr>schedule := pre @ post\<rparr>)"
    by (simp add: connectToESP32_fallback_def f split: option.splits)
  from 1 2 show ?thesis
    by (simp add: handler_notify_def handler_fallback_def)
qed

text \<open>
  C1 (as amended). After a successful setup both variants settle at most once: once the
  call has settled, no later event changes the outcome, the number of disconnects or
  the number of fallback reads.

  Notify-only variant: a schedule that holds the timeout or a notification with a value
  settles the call; once the call has settled, the handler is unregistered and the timer
  cleared, and every later event leaves the whole session as it is.

  Fallback variant: a schedule that holds the timeout decides the race; once the timer
  has won, the call stays suspended at its one fallback read for as long as the read has
  not completed, whatever notifications arrive meanwhile, and no further read is
  started. Neither path cancels the other. The timeout step leaves the registration of
  the handler as it finds it, so when the timeout is the first deciding event the
  handler is still registered after it. The handler never touches the timer, and the
  timer is pending for as long as it has not fired, also after the call has settled.
\<close>

theorem settles_at_most_once:
  "(is_settled (progress (connectToESP32_notify (online pre))) \<longrightarrow>
      connectToESP32_notify (online (pre @ post)) = connectToESP32_notify (online pre)
      \<and> \<not> listening (connectToESP32_notify (online pre))
      \<and> \<not> timer_armed (connectToESP32_notify (online pre)))
   \<and> (list_ex (\<lambda>e. \<not> quiet e) pre \<longrightarrow>
      is_settled (progress (connectToESP32_notify (online pre))))
   \<and> (is_settled (progress (connectToESP32_fallback (online pre))) \<longrightarrow>
      progress (connectToESP32_fallback (online (pre @ post)))
        = progress (connectToESP32_fallback (online pre))
      \<and> disconnects (connectToESP32_fallback (online (pre @ post)))
        = disconnects (connectToESP32_fallback (online pre))
      \<and> reads (connectToESP32_fallback (online (pre @ post)))
        = reads (connectToESP32_fallback (online pre)))
   \<and> (progress (connectToESP32_fallback (online pre)) = FallbackRead
        \<and> list_all no_read_completion post \<longrightarrow>
      progress (connectToESP32_fallback (online (pre @ post))) = FallbackRead
      \<and> reads (connectToESP32_fallback (online (pre @ post)))
        = reads (connectToESP32_fallback (online pre)))
   \<and> (TimerFires \<in> set pre \<longrightarrow>
      progress (connectToESP32_fallback (online pre)) \<noteq> Racing)
   \<and> listening (step_fallback TimerFires s) = listening s
   \<and> timer_armed (step_fallback (Notification val) s) = timer_armed s
   \<and> (list_all quiet pre \<longrightarrow>
      progress (connectToESP32_fallback (online (pre @ [TimerFires]))) = FallbackRead
      \<and> listening (connectToESP32_fallback (online (pre @ [TimerFires]))))
   \<and> (TimerFires \<notin> set pre \<longrightarrow>
      timer_armed (connectToESP32_fallback (online pre)))"
proof (intro conjI impI)
  assume a: "is_settled (progress (connectToESP32_notify (online pre)))"
  then have s: "is_settled (progress (run_notify pre subscribed))"
    by (simp add: connect_notify_online)
  show "connectToESP32_notify (online (pre @ post)) = connectToESP32_notify (online pre)"
    by (simp add: connect_notify_online notify_settled_fixed(1) [OF s])
  show "\<not> listening (connectToESP32_notify (online pre))"
    by (simp add: connect_notify_online notify_settled_fixed(2) [OF s])
  show "\<not> timer_armed (connectToESP32_notify (online pre))"
    by (simp add: connect_notify_online notify_settled_fixed(3) [OF s])
next
  assume "list_ex (\<lambda>e. \<not> quiet e) pre"
  then have "is_settled (progress (run_notify pre subscribed))"
    by (intro run_notify_decisive) (simp_all add: subscribed_sel)
  then show "is_settled (progress (connectToESP32_notify (online pre)))"
    by (simp add: connect_notify_online)
next
  assume "is_settled (progress (connectToESP32_fallback (online pre)))"
  then obtain r where r: "progress (run_fallback pre subscribed) = Settled r"
    using is_settled_cases by (auto simp: connect_fallback_online)
  from run_fallback_settled [OF r, of post] r
  show "progress (connectToESP32_fallback (online (pre @ post)))
        = progress (connectToESP32_fallback (online pre))"
    and "disconnects (connectToESP32_fallback (online (pre @ post)))
        = disconnects (connectToESP32_fallback (online pre))"
    and "reads (connectToESP32_fallback (online (pre @ post)))
        = reads (connectToESP32_fallback (online pre))"
    by (simp_all add: connect_fallback_online run_fallback_append)
next
  assume "progress (connectToESP32_fallback (online pre)) = FallbackRead
        \<and> list_all no_read_completion post"
  then have p: "progress (run_fallback pre subscribed) = FallbackRead"
    and q: "list_all no_read_completion post"
    by (simp_all add: connect_fallback_online)
  from run_fallback_reading [OF p q]
  show "progress (connectToESP32_fallback (online (pre @ post))) = FallbackRead"
    and "reads (connectToESP32_fallback (online (pre @ post)))
        = reads (connectToESP32_fallback (online pre))"
    by (simp_all add: connect_fallback_online run_fallback_append)
next
  assume "TimerFires \<in> set pre"
  then have "progress (run_fallback pre subscribed) \<noteq> Racing"
    by (intro run_fallback_timer_decides) (simp_all add: subscribed_sel)
  then show "progress (connectToESP32_fallback (online pre)) \<noteq> Racing"
    by (simp add: connect_fallback_online)
next
  show "listening (step_fallback TimerFires s) = listening s"
    by (rule timeout_keeps_handler)
next
  show "timer_armed (step_fallback (Notification val) s) = timer_armed s"
    by (rule step_fallback_timer_pending) simp
next
  assume q: "list_all quiet pre"
  have e: "list_all no_read_completion []" by simp
  from fallback_timer_first(1) [OF q e]
  show "progress (connectToESP32_fallback (online (pre @ [TimerFires]))) = FallbackRead"
    by (simp add: connect_fallback_online)
  from fallback_timer_first(4) [OF q e]
  show "listening (connectToESP32_fallback (online (pre @ [TimerFires])))"
    by (simp add: connect_fallback_online)
next
  assume "TimerFires \<notin> set pre"
  then show "timer_armed (connectToESP32_fallback (online pre))"
    by (simp add: connect_fallback_online run_fallback_timer_pending subscribed_sel)
qed

theorem settles_at_most_once_witness:
  "is_settled (progress (connectToESP32_notify (online [Notification (Some [42, 17])])))
   \<and> connectToESP32_notify (online ([Notification (Some [42, 17])] @ [TimerFires]))
       = connectToESP32_notify (online [Notification (Some [42, 17])])
   \<and> \<not> listening (connectToESP32_notify (online [Notification (Some [42, 17])]))
   \<and> \<not> timer_armed (connectToESP32_notify (online [Notification (Some [42, 17])]))
   \<and> list_ex (\<lambda>e. \<not> quiet e) [Notification (Some [42, 17])]
   \<and> is_settled (progress (connectToESP32_fallback (online [Notification (Some [42, 17])])))
   \<and> progress (connectToESP32_fallback (online ([Notification (Some [42, 17])] @ [TimerFires])))
       = Settled (Inr (bytesToSensorData 42 17))
   \<and> reads (connectToESP32_fallback (online ([Notification (Some [42, 17])] @ [TimerFires]))) = 0
   \<and> disconnects (connectToESP32_fallback (online ([Notification (Some [42, 17])] @ [TimerFires]))) = 1
   \<and> progress (connectToESP32_fallback (online [TimerFires])) = FallbackRead
   \<and> list_all no_read_completion [Notification (Some [42, 17])]
   \<and> progress (connectToESP32_fallback (online ([TimerFires] @ [Notification (Some [42, 17])])))
       = FallbackRead
   \<and> reads (connectToESP32_fallback (online ([TimerFires] @ [Notification (Some [42, 17])]))) = 1
   \<and> TimerFires \<in> set [TimerFires]
   \<and> list_all quiet [Notification None, LinkLost]
   \<and> progress (connectToESP32_fallback (online ([Notification None, LinkLost] @ [TimerFires])))
       = FallbackRead
   \<and> listening (connectToESP32_fallback (online ([Notification None, LinkLost] @ [TimerFires])))
   \<and> TimerFires \<notin> set [Notification (Some [42, 17])]
   \<and> timer_armed (connectToESP32_fallback (online [Notification (Some [42, 17])]))"
  using settles_at_most_once [of "[Notification (Some [42, 17])]" "[TimerFires]"]
    settles_at_most_once [of "[TimerFires]" "[Notification (Some [42, 17])]"]
    settles_at_most_once [of "[Notification None, LinkLost]" "[]"]
  by (simp add: session_eval)

text \<open>
  C1, the claim as written, fails on the fallback variant. With the timer as the winner
  the call is suspended at its fallback read and the handler is still registered; with
  a notification as the winner the call has fulfilled and the timer is still pending.
\<close>

theorem fallback_cancels_nothing:
  "progress (connectToESP32_fallback (online [TimerFires])) = FallbackRead
   \<and> listening (connectToESP32_fallback (online [TimerFires]))
   \<and> progress (connectToESP32_fallback (online [Notification (Some [42, 17])]))
       = Settled (Inr (bytesToSensorData 42 17))
   \<and> timer_armed (connectToESP32_fallback (online [Notification (Some [42, 17])]))"
  by (simp add: session_eval)

text \<open>
  C2 (as amended). Fallback variant, after a successful setup. If the first event that
  is the timeout or carries a value is a notification whose payload decodes (two bytes
  or more), only value-less notifications, link loss and stray read completions before
  it, the call fulfils with the decoded payload of that notification (pH 0, moisture
  the first byte, tds, nitrogen, phosphorus and potassium the second) and
  \<^verbatim>\<open>readValue\<close> is never called, whatever the schedule holds after it. If the
  timeout comes before any notification with a value, \<^verbatim>\<open>readValue\<close> is called
  exactly once, the call waiting for it whatever notifications arrive meanwhile, and
  when the read completes with a value that decodes the call fulfils with that value
  decoded, whatever the schedule holds after it. Nothing is said here of a schedule
  whose first notification with a value does not decode.
\<close>

theorem race_outcome:
  "(list_all quiet ns \<and> 2 \<le> length v \<longrightarrow>
      progress (connectToESP32_fallback (online (ns @ Notification (Some v) # rest)))
        = Settled (Inr \<lparr>pH = 0, moisture = real (unat (v ! 0)), tds = real (unat (v ! 1)),
                         nitrogen = real (unat (v ! 1)), phosphorus = real (unat (v ! 1)),
                         potassium = real (unat (v ! 1))\<rparr>)
      \<and> reads (connectToESP32_fallback (online (ns @ Notification (Some v) # rest))) = 0)
   \<and> (list_all quiet ns \<and> list_all no_read_completion ms \<longrightarrow>
      progress (connectToESP32_fallback (online (ns @ TimerFires # ms))) = FallbackRead
      \<and> reads (connectToESP32_fallback (online (ns @ TimerFires # ms))) = 1)
   \<and> (list_all quiet ns \<and> list_all no_read_completion ms \<and> 2 \<le> length v \<longrightarrow>
      progress (connectToESP32_fallback
          (online (ns @ TimerFires # ms @ ReadCompletes (Inr v) # rest)))
        = Settled (Inr \<lparr>pH = 0, moisture = real (unat (v ! 0)), tds = real (unat (v ! 1)),
                         nitrogen = real (unat (v ! 1)), phosphorus = real (unat (v ! 1)),
                         potassium = real (unat (v ! 1))\<rparr>)
      \<and> reads (connectToESP32_fallback
          (online (ns @ TimerFires # ms @ ReadCompletes (Inr v) # rest))) = 1)"
proof (intro conjI impI)
  assume a: "list_all quiet ns \<and> 2 \<le> length v"
  then have ns: "list_all quiet ns"
    and v: "parse2Bytes v = Inr (real (unat (v ! 0)), real (unat (v ! 1)))"
    by (simp_all add: parse2Bytes_at_least_two)
  from fallback_notification_first(1) [OF ns v]
  show "progress (connectToESP32_fallback (online (ns @ Notification (Some v) # rest)))
        = Settled (Inr \<lparr>pH = 0, moisture = real (unat (v ! 0)), tds = real (unat (v ! 1)),
                         nitrogen = real (unat (v ! 1)), phosphorus = real (unat (v ! 1)),
                         potassium = real (unat (v ! 1))\<rparr>)"
    by (simp add: connect_fallback_online bytesToSensorData_def)
  from fallback_notification_first(2) [OF ns v]
  show "reads (connectToESP32_fallback (online (ns @ Notification (Some v) # rest))) = 0"
    by (simp add: connect_fallback_online)
next
  assume a: "list_all quiet ns \<and> list_all no_read_completion ms"
  then have ns: "list_all quiet ns" and ms: "list_all no_read_completion ms"
    by simp_all
  from fallback_timer_first(1) [OF ns ms]
  show "progress (connectToESP32_fallback (online (ns @ TimerFires # ms))) = FallbackRead"
    by (simp add: connect_fallback_online)
  from fallback_timer_first(2) [OF ns ms]
  show "reads (connectToESP32_fallback (online (ns @ TimerFires # ms))) = 1"
    by (simp add: connect_fallback_online)
next
  assume a: "list_all quiet ns \<and> list_all no_read_completion ms \<and> 2 \<le> length v"
  then have ns: "list_all quiet ns" and ms: "list_all no_read_completion ms"
    and v: "parse2Bytes v = Inr (real (unat (v ! 0)), real (unat (v ! 1)))"
    by (simp_all add: parse2Bytes_at_least_two)
  from v show "progress (connectToESP32_fallback
          (online (ns @ TimerFires # ms @ ReadCompletes (Inr v) # rest)))
        = Settled (Inr \<lparr>pH = 0, moisture = real (unat (v ! 0)), tds = real (unat (v ! 1)),
                         nitrogen = real (unat (v ! 1)), phosphorus = real (unat (v ! 1)),
                         potassium = real (unat (v ! 1))\<rparr>)"
    by (simp add: connect_fallback_online fallback_read_result(1) [OF ns ms] read_done_def
        leave_try_sel bytesToSensorData_def)
  show "reads (connectToESP32_fallback
          (online (ns @ TimerFires # ms @ ReadCompletes (Inr v) # rest))) = 1"
    by (simp add: connect_fallback_online fallback_read_result(2) [OF ns ms])
qed

theorem race_outcome_witness:
  "list_all quiet [Notification None] \<and> 2 \<le> length [42, 17 :: byte]
   \<and> list_all no_read_completion [Notification (Some [1, 2])]
   \<and> progress (connectToESP32_fallback
        (online ([Notification None] @ Notification (Some [42, 17]) # [TimerFires])))
       = Settled (Inr \<lparr>pH = 0, moisture = 42, tds = 17, nitrogen = 17, phosphorus = 17,
                        potassium = 17\<rparr>)
   \<and> reads (connectToESP32_fallback
        (online ([Notification None] @ Notification (Some [42, 17]) # [TimerFires]))) = 0
   \<and> progress (connectToESP32_fallback
        (online ([Notification None] @ TimerFires # [Notification (Some [1, 2])])))
       = FallbackRead
   \<and> reads (connectToESP32_fallback
        (online ([Notification None] @ TimerFires # [Notification (Some [1, 2])]))) = 1
   \<and> progress (connectToESP32_fallback
        (online ([Notification None] @ TimerFires # [Notification (Some [1, 2])]
                  @ ReadCompletes (Inr [42, 17]) # [TimerFires])))
       = Settled (Inr \<lparr>pH = 0, moisture = 42, tds = 17, nitrogen = 17, phosphorus = 17,
                        potassium = 17\<rparr>)
   \<and> reads (connectToESP32_fallback
        (online ([Notification None] @ TimerFires # [Notification (Some [1, 2])]
                  @ ReadCompletes (Inr [42, 17]) # [TimerFires]))) = 1"
  using race_outcome [where ns = "[Notification None]" and v = "[42, 17]"
      and rest = "[TimerFires]" and ms = "[Notification (Some [1, 2])]"]
  by simp

text \<open>
  C2, the claim as written, fails. A notification event without a value arrives before
  the timeout, and yet \<^verbatim>\<open>readValue\<close> is called and its value is the result. The same
  holds when the notification before the timeout carries a one-byte value, also when a
  decodable notification follows it before the timeout.
\<close>

theorem notification_before_timeout_not_returned:
  "reads (connectToESP32_fallback (online [Notification None, TimerFires])) = 1
   \<and> progress (connectToESP32_fallback
        (online [Notification None, TimerFires, ReadCompletes (Inr [1, 2])]))
       = Settled (Inr \<lparr>pH = 0, moisture = 1, tds = 2, nitrogen = 2, phosphorus = 2,
                        potassium = 2\<rparr>)
   \<and> reads (connectToESP32_fallback (online [Notification (Some [7]), TimerFires])) = 1
   \<and> progress (connectToESP32_fallback
        (online [Notification (Some [7]), Notification (Some [42, 17]), TimerFires,
                 ReadCompletes (Inr [1, 2])]))
       = Settled (Inr \<lparr>pH = 0, moisture = 1, tds = 2, nitrogen = 2, phosphorus = 2,
                        potassium = 2\<rparr>)
   \<and> reads (connectToESP32_fallback
        (online [Notification (Some [7]), Notification (Some [42, 17]), TimerFires,
                 ReadCompletes (Inr [1, 2])])) = 1"
  by (simp add: session_eval bytesToSensorData_def)

text \<open>
  C7 (as amended). Fallback variant. When the timer wins the race and the fallback read
  then fails, the call fails with the error of the read itself, as the platform raised
  it, after exactly one call of \<^verbatim>\<open>readValue\<close>.
\<close>

theorem fallback_read_failure:
  assumes "list_all quiet ns" "list_all no_read_completion ms"
  shows "progress (connectToESP32_fallback (online (ns @ TimerFires # ms @ ReadCompletes (Inl err) # rest)))
           = Settled (Inl err)
         \<and> reads (connectToESP32_fallback (online (ns @ TimerFires # ms @ ReadCompletes (Inl err) # rest))) = 1"
  by (simp add: connect_fallback_online fallback_read_result(1,2) [OF assms] read_done_def leave_try_sel)

theorem fallback_read_failure_witness:
  "list_all quiet [LinkLost] \<and> list_all no_read_completion [Notification (Some [42, 17])]
   \<and> progress (connectToESP32_fallback
        (online ([LinkLost] @ TimerFires # [Notification (Some [42, 17])]
                  @ ReadCompletes (Inl (DOMException ''NetworkError'' None)) # [])))
       = Settled (Inl (DOMException ''NetworkError'' None))
   \<and> reads (connectToESP32_fallback
        (online ([LinkLost] @ TimerFires # [Notification (Some [42, 17])]
                  @ ReadCompletes (Inl (DOMException ''NetworkError'' None)) # []))) = 1"
  using fallback_read_failure [of "[LinkLost]" "[Notification (Some [42, 17])]"
      "DOMException ''NetworkError'' None" "[]"]
  by simp

text \<open>
  C7, the claim as written, fails: the failure of the call is the read's own error,
  not an error that carries it as its cause.
\<close>

theorem fallback_read_failure_unwrapped:
  "progress (connectToESP32_fallback
      (online [TimerFires, ReadCompletes (Inl (DOMException ''NetworkError'' None))]))
     = Settled (Inl (DOMException ''NetworkError'' None))
   \<and> cause (DOMException ''NetworkError'' None) = None
   \<and> cause (DOMException ''NetworkError'' None) \<noteq> Some (DOMException ''NetworkError'' None)"
  by (simp add: session_eval)

section \<open>Where the two variants part\<close>

text \<open>
  C5. In the notify-only variant a rejection of \<^verbatim>\<open>getPrimaryService\<close>, after
  \<^verbatim>\<open>device.gatt.connect()\<close> has succeeded, rejects the call with the link still up
  and \<^verbatim>\<open>disconnect\<close> never called. The fallback variant, on the same transport, leaves
  through its \<^verbatim>\<open>finally\<close> block and disconnects once.
\<close>

theorem notify_setup_failure_leaks:
  "progress (connectToESP32_notify
      ((online [])\<lparr>getPrimaryService := Some (DOMException ''NotFoundError'' None)\<rparr>))
     = Settled (Inl (DOMException ''NotFoundError'' None))
   \<and> connected (connectToESP32_notify
      ((online [])\<lparr>getPrimaryService := Some (DOMException ''NotFoundError'' None)\<rparr>))
   \<and> disconnects (connectToESP32_notify
      ((online [])\<lparr>getPrimaryService := Some (DOMException ''NotFoundError'' None)\<rparr>)) = 0
   \<and> \<not> connected (connectToESP32_fallback
      ((online [])\<lparr>getPrimaryService := Some (DOMException ''NotFoundError'' None)\<rparr>))
   \<and> disconnects (connectToESP32_fallback
      ((online [])\<lparr>getPrimaryService := Some (DOMException ''NotFoundError'' None)\<rparr>)) = 1"
  by (simp add: connectToESP32_notify_def connectToESP32_fallback_def online_def idle_def
      leave_try_def disconnect_if_connected_def)

text \<open>
  C6. In the fallback variant a one-byte notification before the timeout does not fail
  the call: the handler unregisters itself, the call stays in the race, and after the
  timeout the fallback read fulfils it. The notify-only variant, on the same schedule,
  rejects with the decoder's error.
\<close>

theorem fallback_malformed_notification_swallowed:
  "parse2Bytes [7] = Inl (Expected2Bytes 1)
   \<and> progress (connectToESP32_fallback (online [Notification (Some [7])])) = Racing
   \<and> \<not> listening (connectToESP32_fallback (online [Notification (Some [7])]))
   \<and> progress (connectToESP32_fallback
        (online [Notification (Some [7]), TimerFires, ReadCompletes (Inr [42, 17])]))
       = Settled (Inr (bytesToSensorData 42 17))
   \<and> progress (connectToESP32_notify
        (online [Notification (Some [7]), TimerFires, ReadCompletes (Inr [42, 17])]))
       = Settled (Inl (InvalidBLEPayloadLength 1))"
  by (simp add: session_eval)

end
